theory Spec2Isabelle
  imports Main
begin

section \<open>The lifecycle coordinator of shell/browser/browser.cc\<close>

text \<open>
  The theory embeds the lifecycle part of \<open>electron::Browser\<close>: the flags
  \<open>is_quiting_\<close>, \<open>is_exiting_\<close>, \<open>is_ready_\<close>, \<open>is_shutdown_\<close>, the observer
  list, the stored quit closure of the main message loop and the ready promise. Every
  member function becomes a function on a record of these fields.

  What a member function does to the outside world is appended to a trace: the callbacks
  it delivers to the observers, the closure it runs and the requests it sends to the
  window list and to the main parts. What the outside world answers
  (\<open>WindowList::IsEmpty()\<close>, the result of \<open>SetExitCode\<close>, the result of
  \<open>PathService::Get\<close>) is a parameter of the function that asks.

  The bodies of the observers are not part of browser.cc. An observer is given by its
  identity and by what it writes through the \<open>bool* prevent_default\<close> pointer of the three
  callbacks that carry one. Observers that call back into the browser from inside a
  callback are outside this model, and so is a change of the observer list during a
  dispatch loop.

  A quit closure (\<open>base::OnceClosure\<close>) is given by an identity; running it is an entry of
  the trace. The version, name and badge count accessors and the macOS-only
  \<open>NewWindowForTab\<close> touch none of the lifecycle fields and are left out.
\<close>

subsection \<open>Data\<close>

type_synonym launch_info = "(string \<times> string) list"

text \<open>The member functions of \<open>BrowserObserver\<close> that browser.cc calls, with their arguments.\<close>

datatype callback =
    Cb_OnBeforeQuit
  | Cb_OnWillQuit
  | Cb_OnQuit
  | Cb_OnWindowAllClosed
  | Cb_OnOpenFile string
  | Cb_OnOpenURL string
  | Cb_OnActivate bool
  | Cb_OnWillFinishLaunching
  | Cb_OnFinishLaunching launch_info
  | Cb_OnAccessibilitySupportChanged
  | Cb_OnLogin nat launch_info
  | Cb_OnPreMainMessageLoopRun

text \<open>
  An observer: its identity, and for each callback with a \<open>prevent_default\<close> pointer what
  it stores through the pointer, given the value it finds there (\<open>None\<close>: it does not
  write).
\<close>

record observer =
  obs_id :: nat
  OnBeforeQuit :: "bool \<Rightarrow> bool option"
  OnWillQuit :: "bool \<Rightarrow> bool option"
  OnOpenFile :: "string \<Rightarrow> bool \<Rightarrow> bool option"

datatype event =
    Notified nat callback
  | Asked nat callback "bool option"
  | Run_quit_closure nat
  | Call_SetExitCode int
  | Call_CloseAllWindows
  | Call_DestroyAllWindows
  | Call_CreateDirectory string

record promise =
  isolate :: nat
  resolved :: bool

record browser =
  is_quiting :: bool
  is_exiting :: bool
  is_ready :: bool
  is_shutdown :: bool
  observers :: "observer list"
  quit_main_message_loop :: "nat option"
  ready_promise :: "promise option"
  trace :: "event list"

text \<open>\<open>exit(code)\<close> ends the process; every other path returns to the caller.\<close>

datatype outcome = ProcessExit int browser | Running browser

subsection \<open>The promise primitive\<close>

text \<open>
  Modelled from the spec: \<open>gin_helper::Promise\<close> is declared outside browser.cc.
  The spec's ReadySignal is a single-resolution latch: \<open>Resolve()\<close> is idempotent, and
  \<open>GetHandle()\<close> returns an awaitable that completes immediately when the latch is
  already resolved. A handle is the promise it was taken from.
\<close>

definition make_promise :: "nat \<Rightarrow> promise" where
  "make_promise i = \<lparr>isolate = i, resolved = False\<rparr>"

definition Resolve :: "promise \<Rightarrow> promise" where
  "Resolve p = p\<lparr>resolved := True\<rparr>"

definition GetHandle :: "promise \<Rightarrow> promise" where
  "GetHandle p = p"

subsection \<open>Dispatch loops\<close>

text \<open>\<open>for (BrowserObserver& observer : observers_) observer.F(args);\<close>\<close>

fun notify_all :: "callback \<Rightarrow> observer list \<Rightarrow> event list \<Rightarrow> event list" where
  "notify_all cb [] tr = tr"
| "notify_all cb (ob # obs) tr = notify_all cb obs (tr @ [Notified (obs_id ob) cb])"

text \<open>
  \<open>for (BrowserObserver& observer : observers_) observer.F(&prevent_default, args);\<close>
  The flag is threaded through the loop; the loop has no exit but the end of the list.
\<close>

fun notify_prevent ::
  "callback \<Rightarrow> (observer \<Rightarrow> bool \<Rightarrow> bool option) \<Rightarrow> observer list \<Rightarrow> bool \<Rightarrow> event list
    \<Rightarrow> bool \<times> event list" where
  "notify_prevent cb h [] prevent_default tr = (prevent_default, tr)"
| "notify_prevent cb h (ob # obs) prevent_default tr =
     (let w = h ob prevent_default in
      notify_prevent cb h obs (case w of None \<Rightarrow> prevent_default | Some b \<Rightarrow> b)
        (tr @ [Asked (obs_id ob) cb w]))"

subsection \<open>Member functions\<close>

definition Shutdown :: "browser \<Rightarrow> browser" where
  "Shutdown s =
     (if is_shutdown s then s
      else
        let s1 = s\<lparr>is_shutdown := True\<rparr>;
            s2 = s1\<lparr>is_quiting := True\<rparr>;
            s3 = s2\<lparr>trace := notify_all Cb_OnQuit (observers s2) (trace s2)\<rparr>
        in (case quit_main_message_loop s3 of
              Some c \<Rightarrow> s3\<lparr>quit_main_message_loop := None, trace := trace s3 @ [Run_quit_closure c]\<rparr>
            | None \<Rightarrow> s3))"

definition NotifyAndShutdown :: "browser \<Rightarrow> browser" where
  "NotifyAndShutdown s =
     (if is_shutdown s then s
      else
        let (prevent_default, tr) = notify_prevent Cb_OnWillQuit OnWillQuit (observers s) False (trace s);
            s1 = s\<lparr>trace := tr\<rparr>
        in if prevent_default then s1\<lparr>is_quiting := False\<rparr>
           else Shutdown s1)"

definition HandleBeforeQuit :: "browser \<Rightarrow> bool \<times> browser" where
  "HandleBeforeQuit s =
     (let (prevent_default, tr) = notify_prevent Cb_OnBeforeQuit OnBeforeQuit (observers s) False (trace s)
      in (\<not> prevent_default, s\<lparr>trace := tr\<rparr>))"

text \<open>\<open>windows_empty\<close> is what \<open>WindowList::IsEmpty()\<close> returns.\<close>

definition Quit :: "bool \<Rightarrow> browser \<Rightarrow> browser" where
  "Quit windows_empty s =
     (if is_quiting s then s
      else
        let (r, s1) = HandleBeforeQuit s;
            s2 = s1\<lparr>is_quiting := r\<rparr>
        in if \<not> is_quiting s2 then s2
           else if windows_empty then NotifyAndShutdown s2
           else s2\<lparr>trace := trace s2 @ [Call_CloseAllWindows]\<rparr>)"

text \<open>
  \<open>arg\<close> is what \<open>args->GetNext(&code)\<close> finds (\<open>None\<close>: nothing, \<open>code\<close> stays 0),
  \<open>loop_ready\<close> is what \<open>SetExitCode(code)\<close> returns: false when the message loop is
  not ready.
\<close>

definition Exit :: "int option \<Rightarrow> bool \<Rightarrow> bool \<Rightarrow> browser \<Rightarrow> outcome" where
  "Exit arg loop_ready windows_empty s =
     (let code = (case arg of Some c \<Rightarrow> c | None \<Rightarrow> 0);
          s0 = s\<lparr>trace := trace s @ [Call_SetExitCode code]\<rparr>
      in if \<not> loop_ready then ProcessExit code s0
         else
           let s1 = s0\<lparr>is_quiting := True\<rparr>;
               s2 = s1\<lparr>is_exiting := True\<rparr>
           in if windows_empty then Running (Shutdown s2)
              else Running (s2\<lparr>trace := trace s2 @ [Call_DestroyAllWindows]\<rparr>))"

definition OpenFile :: "string \<Rightarrow> browser \<Rightarrow> bool \<times> browser" where
  "OpenFile file_path s =
     (let (prevent_default, tr) =
            notify_prevent (Cb_OnOpenFile file_path) (\<lambda>ob. OnOpenFile ob file_path) (observers s) False (trace s)
      in (prevent_default, s\<lparr>trace := tr\<rparr>))"

definition OpenURL :: "string \<Rightarrow> browser \<Rightarrow> browser" where
  "OpenURL url s = s\<lparr>trace := notify_all (Cb_OnOpenURL url) (observers s) (trace s)\<rparr>"

definition Activate :: "bool \<Rightarrow> browser \<Rightarrow> browser" where
  "Activate has_visible_windows s =
     s\<lparr>trace := notify_all (Cb_OnActivate has_visible_windows) (observers s) (trace s)\<rparr>"

definition WillFinishLaunching :: "browser \<Rightarrow> browser" where
  "WillFinishLaunching s = s\<lparr>trace := notify_all Cb_OnWillFinishLaunching (observers s) (trace s)\<rparr>"

text \<open>\<open>user_data\<close> is the path \<open>PathService::Get(DIR_USER_DATA, &user_data)\<close> yields, if any.\<close>

definition DidFinishLaunching :: "string option \<Rightarrow> launch_info \<Rightarrow> browser \<Rightarrow> browser" where
  "DidFinishLaunching user_data info s =
     (let s1 = (case user_data of
                  Some d \<Rightarrow> s\<lparr>trace := trace s @ [Call_CreateDirectory d]\<rparr>
                | None \<Rightarrow> s);
          s2 = s1\<lparr>is_ready := True\<rparr>;
          s3 = (case ready_promise s2 of
                  Some p \<Rightarrow> s2\<lparr>ready_promise := Some (Resolve p)\<rparr>
                | None \<Rightarrow> s2)
      in s3\<lparr>trace := notify_all (Cb_OnFinishLaunching info) (observers s3) (trace s3)\<rparr>)"

definition WhenReady :: "nat \<Rightarrow> browser \<Rightarrow> promise \<times> browser" where
  "WhenReady i s =
     (case ready_promise s of
        Some p \<Rightarrow> (GetHandle p, s)
      | None \<Rightarrow>
          let p0 = make_promise i;
              p = (if is_ready s then Resolve p0 else p0)
          in (GetHandle p, s\<lparr>ready_promise := Some p\<rparr>))"

definition OnAccessibilitySupportChanged :: "browser \<Rightarrow> browser" where
  "OnAccessibilitySupportChanged s =
     s\<lparr>trace := notify_all Cb_OnAccessibilitySupportChanged (observers s) (trace s)\<rparr>"

definition RequestLogin :: "nat \<Rightarrow> launch_info \<Rightarrow> browser \<Rightarrow> browser" where
  "RequestLogin login_handler request_details s =
     s\<lparr>trace := notify_all (Cb_OnLogin login_handler request_details) (observers s) (trace s)\<rparr>"

definition PreMainMessageLoopRun :: "browser \<Rightarrow> browser" where
  "PreMainMessageLoopRun s = s\<lparr>trace := notify_all Cb_OnPreMainMessageLoopRun (observers s) (trace s)\<rparr>"

definition SetMainMessageLoopQuitClosure :: "nat \<Rightarrow> browser \<Rightarrow> browser" where
  "SetMainMessageLoopQuitClosure quit_closure s =
     (if is_shutdown s then s\<lparr>trace := trace s @ [Run_quit_closure quit_closure]\<rparr>
      else s\<lparr>quit_main_message_loop := Some quit_closure\<rparr>)"

text \<open>The body does not use its \<open>NativeWindow* window\<close> argument.\<close>

definition OnWindowCloseCancelled :: "browser \<Rightarrow> browser" where
  "OnWindowCloseCancelled s = (if is_quiting s then s\<lparr>is_quiting := False\<rparr> else s)"

definition OnWindowAllClosed :: "browser \<Rightarrow> browser" where
  "OnWindowAllClosed s =
     (if is_exiting s then Shutdown s
      else if is_quiting s then NotifyAndShutdown s
      else s\<lparr>trace := notify_all Cb_OnWindowAllClosed (observers s) (trace s)\<rparr>)"

subsection \<open>Executions\<close>

text \<open>
  The calls the embedding environment and the window list make on the browser, each with
  the answers it gets from the outside. \<open>Env_Observers\<close> is not a member function: it
  stands for whatever happens to the observer list between two calls (\<open>AddObserver\<close> and
  \<open>RemoveObserver\<close> of browser.h, and the observers changing their minds).
\<close>

datatype api_call =
    Do_Quit bool
  | Do_Exit "int option" bool bool
  | Do_Shutdown
  | Do_OpenFile string
  | Do_OpenURL string
  | Do_Activate bool
  | Do_WillFinishLaunching
  | Do_DidFinishLaunching "string option" launch_info
  | Do_WhenReady nat
  | Do_OnAccessibilitySupportChanged
  | Do_RequestLogin nat launch_info
  | Do_PreMainMessageLoopRun
  | Do_SetMainMessageLoopQuitClosure nat
  | Do_OnWindowCloseCancelled
  | Do_OnWindowAllClosed
  | Env_Observers "observer list"

fun step :: "api_call \<Rightarrow> browser \<Rightarrow> outcome" where
  "step (Do_Quit windows_empty) s = Running (Quit windows_empty s)"
| "step (Do_Exit arg loop_ready windows_empty) s = Exit arg loop_ready windows_empty s"
| "step Do_Shutdown s = Running (Shutdown s)"
| "step (Do_OpenFile file_path) s = Running (snd (OpenFile file_path s))"
| "step (Do_OpenURL url) s = Running (OpenURL url s)"
| "step (Do_Activate has_visible_windows) s = Running (Activate has_visible_windows s)"
| "step Do_WillFinishLaunching s = Running (WillFinishLaunching s)"
| "step (Do_DidFinishLaunching user_data info) s = Running (DidFinishLaunching user_data info s)"
| "step (Do_WhenReady i) s = Running (snd (WhenReady i s))"
| "step Do_OnAccessibilitySupportChanged s = Running (OnAccessibilitySupportChanged s)"
| "step (Do_RequestLogin login_handler request_details) s =
     Running (RequestLogin login_handler request_details s)"
| "step Do_PreMainMessageLoopRun s = Running (PreMainMessageLoopRun s)"
| "step (Do_SetMainMessageLoopQuitClosure quit_closure) s =
     Running (SetMainMessageLoopQuitClosure quit_closure s)"
| "step Do_OnWindowCloseCancelled s = Running (OnWindowCloseCancelled s)"
| "step Do_OnWindowAllClosed s = Running (OnWindowAllClosed s)"
| "step (Env_Observers obs) s = Running (s\<lparr>observers := obs\<rparr>)"

text \<open>A sequence of calls; nothing is called on a process that has exited.\<close>

fun run :: "api_call list \<Rightarrow> browser \<Rightarrow> outcome" where
  "run [] s = Running s"
| "run (c # cs) s =
     (case step c s of
        ProcessExit code s' \<Rightarrow> ProcessExit code s'
      | Running s' \<Rightarrow> run cs s')"

fun last_state :: "outcome \<Rightarrow> browser" where
  "last_state (ProcessExit code s) = s"
| "last_state (Running s) = s"

subsection \<open>Reading a trace\<close>

text \<open>The events a call added: the trace only grows at its end.\<close>

definition new_events :: "browser \<Rightarrow> browser \<Rightarrow> event list" where
  "new_events s s' = drop (length (trace s)) (trace s')"

text \<open>The callbacks delivered, as (observer, callback) in the order of delivery.\<close>

fun deliveries :: "event list \<Rightarrow> (nat \<times> callback) list" where
  "deliveries [] = []"
| "deliveries (Notified i cb # es) = (i, cb) # deliveries es"
| "deliveries (Asked i cb w # es) = (i, cb) # deliveries es"
| "deliveries (e # es) = deliveries es"

text \<open>The observers that received the callback \<open>cb\<close>, in the order of delivery.\<close>

definition notified_ids :: "callback \<Rightarrow> event list \<Rightarrow> nat list" where
  "notified_ids cb es = map fst (filter (\<lambda>d. snd d = cb) (deliveries es))"

text \<open>What the observers wrote through \<open>prevent_default\<close>, in the order of delivery.\<close>

fun veto_writes :: "event list \<Rightarrow> bool option list" where
  "veto_writes [] = []"
| "veto_writes (Asked i cb w # es) = w # veto_writes es"
| "veto_writes (e # es) = veto_writes es"

text \<open>The quit closures that were run.\<close>

fun closure_runs :: "event list \<Rightarrow> nat list" where
  "closure_runs [] = []"
| "closure_runs (Run_quit_closure c # es) = c # closure_runs es"
| "closure_runs (e # es) = closure_runs es"

text \<open>
  The lifecycle part of a state: \<open>is_quiting_\<close>, \<open>is_exiting_\<close>, \<open>is_shutdown_\<close>,
  \<open>is_ready_\<close> and the stored quit closure.
\<close>

definition lifecycle :: "browser \<Rightarrow> bool \<times> bool \<times> bool \<times> bool \<times> nat option" where
  "lifecycle s = (is_quiting s, is_exiting s, is_shutdown s, is_ready s, quit_main_message_loop s)"

text \<open>The quit closures a sequence of calls supplies.\<close>

fun supplied :: "api_call list \<Rightarrow> nat list" where
  "supplied [] = []"
| "supplied (Do_SetMainMessageLoopQuitClosure d # cs) = d # supplied cs"
| "supplied (c # cs) = supplied cs"

text \<open>
  Some call of the sequence supplies a quit closure while \<open>is_shutdown_\<close> is false, that
  is, while a closure stored earlier is still waiting.
\<close>

fun supplied_while_pending :: "api_call list \<Rightarrow> browser \<Rightarrow> bool" where
  "supplied_while_pending [] s = False"
| "supplied_while_pending (c # cs) s =
     ((case c of Do_SetMainMessageLoopQuitClosure d \<Rightarrow> \<not> is_shutdown s | _ \<Rightarrow> False) \<or>
      (case step c s of
         ProcessExit code s' \<Rightarrow> False
       | Running s' \<Rightarrow> supplied_while_pending cs s'))"

text \<open>
  The closure \<open>c\<close>, supplied when the trace had length \<open>n\<close>, is accounted for: either
  the browser is shut down and \<open>c\<close> has run exactly once since, or the browser is not shut
  down, \<open>c\<close> has not run and is the stored closure.
\<close>

definition accounted_for :: "nat \<Rightarrow> nat \<Rightarrow> browser \<Rightarrow> bool" where
  "accounted_for n c s =
     (n \<le> length (trace s) \<and>
      (if is_shutdown s
       then count_list (closure_runs (drop n (trace s))) c = 1 \<and> quit_main_message_loop s \<noteq> Some c
       else count_list (closure_runs (drop n (trace s))) c = 0 \<and> quit_main_message_loop s = Some c))"

subsection \<open>Concrete observers and states\<close>

text \<open>An observer that never touches the flag, and one that sets it in every callback.\<close>

definition quiet_observer :: "nat \<Rightarrow> observer" where
  "quiet_observer i =
     \<lparr>obs_id = i, OnBeforeQuit = (\<lambda>p. None), OnWillQuit = (\<lambda>p. None), OnOpenFile = (\<lambda>f p. None)\<rparr>"

definition vetoing_observer :: "nat \<Rightarrow> observer" where
  "vetoing_observer i =
     \<lparr>obs_id = i, OnBeforeQuit = (\<lambda>p. Some True), OnWillQuit = (\<lambda>p. Some True),
      OnOpenFile = (\<lambda>f p. Some True)\<rparr>"

text \<open>An observer that vetoes the will-quit round only.\<close>

definition will_quit_vetoer :: "nat \<Rightarrow> observer" where
  "will_quit_vetoer i =
     \<lparr>obs_id = i, OnBeforeQuit = (\<lambda>p. None), OnWillQuit = (\<lambda>p. Some True), OnOpenFile = (\<lambda>f p. None)\<rparr>"

text \<open>A browser on which nothing has happened yet.\<close>

definition idle_browser :: "observer list \<Rightarrow> browser" where
  "idle_browser obs =
     \<lparr>is_quiting = False, is_exiting = False, is_ready = False, is_shutdown = False,
      observers = obs, quit_main_message_loop = None, ready_promise = None, trace = []\<rparr>"

text \<open>Two observers, nothing has happened.\<close>

definition two_quiet :: browser where
  "two_quiet = idle_browser [quiet_observer 1, quiet_observer 2]"

text \<open>One observer and a stored quit closure, after \<open>Shutdown()\<close>.\<close>

definition after_shutdown :: browser where
  "after_shutdown = Shutdown ((idle_browser [quiet_observer 1])\<lparr>quit_main_message_loop := Some 5\<rparr>)"

text \<open>One quiet observer; \<open>Exit(3)\<close> was called with the loop ready and a window open.\<close>

definition exit_requested :: browser where
  "exit_requested =
     (idle_browser [quiet_observer 1])\<lparr>is_quiting := True, is_exiting := True,
        trace := [Call_SetExitCode 3, Call_DestroyAllWindows]\<rparr>"

text \<open>Three observers, the second of which vetoes; nothing has happened.\<close>

definition veto_in_middle :: browser where
  "veto_in_middle = idle_browser [quiet_observer 1, vetoing_observer 2, quiet_observer 3]"

text \<open>One quiet observer, a stored quit closure, nothing has happened.\<close>

definition one_quiet :: browser where
  "one_quiet = (idle_browser [quiet_observer 1])\<lparr>quit_main_message_loop := Some 5\<rparr>"

text \<open>
  A quit under way with no window left: one observer that vetoes the will-quit round only,
  a stored quit closure, \<open>is_quiting_\<close> set.
\<close>

definition quit_under_way :: browser where
  "quit_under_way =
     (idle_browser [will_quit_vetoer 1])\<lparr>is_quiting := True, quit_main_message_loop := Some 5\<rparr>"

section \<open>Properties\<close>

subsection \<open>The dispatch loops\<close>

lemma notify_all_eq: "notify_all cb obs tr = tr @ map (\<lambda>ob. Notified (obs_id ob) cb) obs"
  by (induction obs arbitrary: tr) simp_all

lemma notify_prevent_trace:
  "snd (notify_prevent cb h obs p tr) = tr @ snd (notify_prevent cb h obs p [])"
proof (induction obs arbitrary: p tr)
  case Nil
  show ?case by simp
next
  case (Cons ob obs)
  show ?case
    using Cons.IH [of _ "tr @ [Asked (obs_id ob) cb (h ob p)]"]
          Cons.IH [of _ "[Asked (obs_id ob) cb (h ob p)]"]
    by (simp add: Let_def)
qed

lemma notify_prevent_flag:
  "fst (notify_prevent cb h obs p tr) = fst (notify_prevent cb h obs p [])"
proof (induction obs arbitrary: p tr)
  case Nil
  show ?case by simp
next
  case (Cons ob obs)
  show ?case
    using Cons.IH [of _ "tr @ [Asked (obs_id ob) cb (h ob p)]"]
          Cons.IH [of _ "[Asked (obs_id ob) cb (h ob p)]"]
    by (simp add: Let_def)
qed

lemma deliveries_append: "deliveries (xs @ ys) = deliveries xs @ deliveries ys"
  by (induction xs rule: deliveries.induct) simp_all

lemma veto_writes_append: "veto_writes (xs @ ys) = veto_writes xs @ veto_writes ys"
  by (induction xs rule: veto_writes.induct) simp_all

lemma closure_runs_append: "closure_runs (xs @ ys) = closure_runs xs @ closure_runs ys"
  by (induction xs rule: closure_runs.induct) simp_all

lemma round_deliveries:
  "deliveries (snd (notify_prevent cb h obs p [])) = map (\<lambda>ob. (obs_id ob, cb)) obs"
proof (induction obs arbitrary: p)
  case Nil
  show ?case by simp
next
  case (Cons ob obs)
  show ?case
    using notify_prevent_trace [of cb h obs _ "[Asked (obs_id ob) cb (h ob p)]"] Cons.IH
    by (simp add: Let_def deliveries_append)
qed

lemma round_closure_runs: "closure_runs (snd (notify_prevent cb h obs p [])) = []"
proof (induction obs arbitrary: p)
  case Nil
  show ?case by simp
next
  case (Cons ob obs)
  show ?case
    using notify_prevent_trace [of cb h obs _ "[Asked (obs_id ob) cb (h ob p)]"] Cons.IH
    by (simp add: Let_def closure_runs_append)
qed

text \<open>
  When no observer of the list ever stores false, the flag at the end of the loop is set
  exactly when it was set at the start or some observer stored true.
\<close>

lemma round_flag:
  "\<forall>ob\<in>set obs. \<forall>q. h ob q \<noteq> Some False \<Longrightarrow>
   fst (notify_prevent cb h obs p []) = (p \<or> Some True \<in> set (veto_writes (snd (notify_prevent cb h obs p []))))"
proof (induction obs arbitrary: p)
  case Nil
  show ?case by simp
next
  case (Cons ob obs)
  have w: "h ob p \<noteq> Some False" using Cons.prems by simp
  have rest: "\<forall>ob\<in>set obs. \<forall>q. h ob q \<noteq> Some False" using Cons.prems by simp
  show ?case
    using notify_prevent_trace [of cb h obs _ "[Asked (obs_id ob) cb (h ob p)]"]
          notify_prevent_flag [of cb h obs _ "[Asked (obs_id ob) cb (h ob p)]"]
          Cons.IH [OF rest] w
    by (cases "h ob p") (auto simp add: Let_def veto_writes_append)
qed

lemma notify_prevent_split:
  "notify_prevent cb h obs p tr =
     (fst (notify_prevent cb h obs p []), tr @ snd (notify_prevent cb h obs p []))"
  using notify_prevent_trace [of cb h obs p tr] notify_prevent_flag [of cb h obs p tr]
  by (simp add: prod_eq_iff)

subsection \<open>Shutdown\<close>

lemma Shutdown_eq:
  "Shutdown s =
     (if is_shutdown s then s
      else s\<lparr>is_quiting := True, is_shutdown := True, quit_main_message_loop := None,
             trace := trace s @ map (\<lambda>ob. Notified (obs_id ob) Cb_OnQuit) (observers s) @
                      (case quit_main_message_loop s of Some c \<Rightarrow> [Run_quit_closure c] | None \<Rightarrow> [])\<rparr>)"
  by (cases "quit_main_message_loop s") (simp_all add: Shutdown_def Let_def notify_all_eq)

lemma is_shutdown_Shutdown: "is_shutdown (Shutdown s)"
  by (simp add: Shutdown_eq)

lemma Shutdown_done: "is_shutdown s \<Longrightarrow> Shutdown s = s"
  by (simp add: Shutdown_def)

lemma Shutdown_twice: "Shutdown (Shutdown s) = Shutdown s"
  by (simp add: Shutdown_done is_shutdown_Shutdown)

lemma Shutdown_funpow: "(Shutdown ^^ Suc n) s = Shutdown s"
  by (induction n) (simp_all add: Shutdown_twice)

lemma deliveries_Notified:
  "deliveries (map (\<lambda>ob. Notified (obs_id ob) cb) obs) = map (\<lambda>ob. (obs_id ob, cb)) obs"
  by (induction obs) simp_all

lemma closure_runs_Notified: "closure_runs (map (\<lambda>ob. Notified (obs_id ob) cb) obs) = []"
  by (induction obs) simp_all

lemma veto_writes_Notified: "veto_writes (map (\<lambda>ob. Notified (obs_id ob) cb) obs) = []"
  by (induction obs) simp_all

lemma notified_ids_round:
  "notified_ids cb' (map (\<lambda>ob. Notified (obs_id ob) cb) obs) = (if cb' = cb then map obs_id obs else [])"
  by (simp add: notified_ids_def deliveries_Notified filter_map comp_def)

lemma notified_ids_append: "notified_ids cb (xs @ ys) = notified_ids cb xs @ notified_ids cb ys"
  by (simp add: notified_ids_def deliveries_append)

lemma new_events_Shutdown:
  "new_events s (Shutdown s) =
     (if is_shutdown s then []
      else map (\<lambda>ob. Notified (obs_id ob) Cb_OnQuit) (observers s) @
           (case quit_main_message_loop s of Some c \<Rightarrow> [Run_quit_closure c] | None \<Rightarrow> []))"
  by (simp add: Shutdown_eq new_events_def)

lemma after_shutdown_eq:
  "after_shutdown = \<lparr>is_quiting = True, is_exiting = False, is_ready = False, is_shutdown = True,
      observers = [quiet_observer 1], quit_main_message_loop = None, ready_promise = None,
      trace = [Notified 1 Cb_OnQuit, Run_quit_closure 5]\<rparr>"
  by (simp add: after_shutdown_def Shutdown_eq idle_browser_def quiet_observer_def)

text \<open>
  C1 (as amended). Calling \<open>Shutdown()\<close> two or more times leaves the same state and the
  same trace as calling it once, from every state. When \<open>is_shutdown_\<close> was false before
  the first call, the calls together dispatch exactly one \<open>OnQuit\<close> round, to every
  observer in registration order, and then run the stored quit closure if there is one;
  when \<open>is_shutdown_\<close> was already true, every call is a no-op and no \<open>OnQuit\<close> is
  dispatched. In both cases at most one closure is run.
\<close>

theorem Shutdown_repeated:
  "(Shutdown ^^ Suc (Suc n)) s = Shutdown s \<and>
   new_events s ((Shutdown ^^ Suc (Suc n)) s) =
     (if is_shutdown s then []
      else map (\<lambda>ob. Notified (obs_id ob) Cb_OnQuit) (observers s) @
           (case quit_main_message_loop s of Some c \<Rightarrow> [Run_quit_closure c] | None \<Rightarrow> [])) \<and>
   notified_ids Cb_OnQuit (new_events s ((Shutdown ^^ Suc (Suc n)) s)) =
     (if is_shutdown s then [] else map obs_id (observers s)) \<and>
   length (closure_runs (new_events s ((Shutdown ^^ Suc (Suc n)) s))) \<le> 1"
proof -
  have same: "(Shutdown ^^ Suc (Suc n)) s = Shutdown s"
    by (rule Shutdown_funpow)
  have ids: "notified_ids Cb_OnQuit (new_events s (Shutdown s)) =
      (if is_shutdown s then [] else map obs_id (observers s))"
    by (cases "quit_main_message_loop s")
       (simp_all add: new_events_Shutdown notified_ids_append notified_ids_round,
        simp_all add: notified_ids_def)
  have runs: "length (closure_runs (new_events s (Shutdown s))) \<le> 1"
    by (cases "quit_main_message_loop s")
       (simp_all add: new_events_Shutdown closure_runs_append closure_runs_Notified)
  show ?thesis
    unfolding same using ids runs by (simp add: new_events_Shutdown)
qed

theorem Shutdown_repeated_witness:
  "(Shutdown ^^ Suc (Suc 0)) two_quiet = Shutdown two_quiet \<and>
   notified_ids Cb_OnQuit (new_events two_quiet ((Shutdown ^^ Suc (Suc 0)) two_quiet)) = [1, 2]"
proof -
  have a: "\<not> is_shutdown two_quiet"
    by (simp add: two_quiet_def idle_browser_def)
  have b: "map obs_id (observers two_quiet) = [1, 2]"
    by (simp add: two_quiet_def idle_browser_def quiet_observer_def)
  show ?thesis
    using Shutdown_repeated [of 0 two_quiet] a b by (auto simp del: funpow.simps)
qed

text \<open>
  As the claim is written, for every state, it fails: in a state where \<open>is_shutdown_\<close> is
  already true two calls dispatch no \<open>OnQuit\<close> at all, although an observer is registered.
\<close>

theorem Shutdown_one_round_counterexample:
  "is_shutdown after_shutdown \<and>
   notified_ids Cb_OnQuit (new_events after_shutdown ((Shutdown ^^ Suc (Suc 0)) after_shutdown)) = [] \<and>
   map obs_id (observers after_shutdown) = [1]"
  by (simp add: after_shutdown_eq Shutdown_def new_events_def notified_ids_def quiet_observer_def)

subsection \<open>The member functions in closed form\<close>

lemma NotifyAndShutdown_eq:
  "NotifyAndShutdown s =
     (if is_shutdown s then s
      else if fst (notify_prevent Cb_OnWillQuit OnWillQuit (observers s) False [])
      then s\<lparr>is_quiting := False,
             trace := trace s @ snd (notify_prevent Cb_OnWillQuit OnWillQuit (observers s) False [])\<rparr>
      else Shutdown (s\<lparr>trace := trace s @ snd (notify_prevent Cb_OnWillQuit OnWillQuit (observers s) False [])\<rparr>))"
  unfolding NotifyAndShutdown_def
  by (subst notify_prevent_split) (simp add: Let_def)

lemma HandleBeforeQuit_eq:
  "HandleBeforeQuit s =
     (\<not> fst (notify_prevent Cb_OnBeforeQuit OnBeforeQuit (observers s) False []),
      s\<lparr>trace := trace s @ snd (notify_prevent Cb_OnBeforeQuit OnBeforeQuit (observers s) False [])\<rparr>)"
  unfolding HandleBeforeQuit_def
  by (subst notify_prevent_split) (simp add: Let_def)

lemma Quit_eq:
  "Quit windows_empty s =
     (if is_quiting s then s
      else if fst (notify_prevent Cb_OnBeforeQuit OnBeforeQuit (observers s) False [])
      then s\<lparr>is_quiting := False,
             trace := trace s @ snd (notify_prevent Cb_OnBeforeQuit OnBeforeQuit (observers s) False [])\<rparr>
      else if windows_empty
      then NotifyAndShutdown
             (s\<lparr>trace := trace s @ snd (notify_prevent Cb_OnBeforeQuit OnBeforeQuit (observers s) False []),
                is_quiting := True\<rparr>)
      else s\<lparr>is_quiting := True,
             trace := trace s @ snd (notify_prevent Cb_OnBeforeQuit OnBeforeQuit (observers s) False []) @
                      [Call_CloseAllWindows]\<rparr>)"
  by (simp add: Quit_def HandleBeforeQuit_eq Let_def)

subsection \<open>Exit precedence\<close>

lemma is_exiting_Shutdown: "is_exiting (Shutdown s) = is_exiting s"
  by (simp add: Shutdown_eq)

lemma is_exiting_NotifyAndShutdown: "is_exiting (NotifyAndShutdown s) = is_exiting s"
  by (simp add: NotifyAndShutdown_eq is_exiting_Shutdown)

lemma is_exiting_Quit: "is_exiting (Quit windows_empty s) = is_exiting s"
  by (simp add: Quit_eq is_exiting_NotifyAndShutdown)

lemma is_exiting_OnWindowAllClosed: "is_exiting (OnWindowAllClosed s) = is_exiting s"
  by (simp add: OnWindowAllClosed_def is_exiting_Shutdown is_exiting_NotifyAndShutdown)

lemma is_exiting_Exit: "Exit arg loop_ready windows_empty s = Running s' \<Longrightarrow> is_exiting s'"
  by (auto simp add: Exit_def Let_def is_exiting_Shutdown split: if_splits)

lemma is_exiting_step: "is_exiting s \<Longrightarrow> step c s = Running s' \<Longrightarrow> is_exiting s'"
proof (cases c)
  case (Do_Exit arg loop_ready windows_empty)
  assume "step c s = Running s'"
  then show ?thesis using Do_Exit by (simp add: is_exiting_Exit)
next
  case (Do_DidFinishLaunching user_data info)
  assume "is_exiting s" "step c s = Running s'"
  then show ?thesis using Do_DidFinishLaunching
    by (auto simp add: DidFinishLaunching_def Let_def split: option.splits)
next
  case (Do_WhenReady i)
  assume "is_exiting s" "step c s = Running s'"
  then show ?thesis using Do_WhenReady
    by (auto simp add: WhenReady_def Let_def split: option.splits)
qed (auto simp add: is_exiting_Shutdown is_exiting_Quit is_exiting_OnWindowAllClosed OpenFile_def
       OpenURL_def Activate_def WillFinishLaunching_def OnAccessibilitySupportChanged_def
       RequestLogin_def PreMainMessageLoopRun_def SetMainMessageLoopQuitClosure_def
       OnWindowCloseCancelled_def split: prod.splits)

lemma is_exiting_run: "is_exiting s \<Longrightarrow> run cs s = Running s' \<Longrightarrow> is_exiting s'"
proof (induction cs arbitrary: s)
  case Nil
  then show ?case by simp
next
  case (Cons c cs)
  from Cons.prems(2) obtain s1 where st: "step c s = Running s1" and rest: "run cs s1 = Running s'"
    by (auto split: outcome.splits)
  from is_exiting_step [OF Cons.prems(1) st] have "is_exiting s1" .
  from Cons.IH [OF this rest] show ?case .
qed

text \<open>
  C2. Let \<open>Exit\<close> be called with the message loop ready, so that it returns with
  \<open>is_exiting_\<close> set, and let any sequence of calls follow that leaves the process
  running. Then \<open>is_exiting_\<close> is still set, and \<open>OnWindowAllClosed()\<close> does what
  \<open>Shutdown()\<close> does: afterwards \<open>is_shutdown_\<close> is true, whatever \<open>is_quiting_\<close> was.
\<close>

theorem exit_precedence:
  assumes "Exit arg True windows_empty s = Running s1"
      and "run calls s1 = Running s2"
  shows "is_exiting s2 \<and> OnWindowAllClosed s2 = Shutdown s2 \<and> is_shutdown (OnWindowAllClosed s2)"
proof -
  have "is_exiting s1" using assms(1) by (rule is_exiting_Exit)
  then have ex: "is_exiting s2" using assms(2) by (rule is_exiting_run)
  then have "OnWindowAllClosed s2 = Shutdown s2" by (simp add: OnWindowAllClosed_def)
  then show ?thesis using ex by (simp add: is_shutdown_Shutdown)
qed

lemma Exit_idle: "Exit (Some 3) True False (idle_browser [quiet_observer 1]) = Running exit_requested"
  by (simp add: Exit_def exit_requested_def idle_browser_def Let_def)

lemma cancel_exit_requested:
  "run [Do_OnWindowCloseCancelled] exit_requested = Running (exit_requested\<lparr>is_quiting := False\<rparr>)"
  by (simp add: OnWindowCloseCancelled_def exit_requested_def idle_browser_def)

text \<open>
  The witness: \<open>Exit(3)\<close> with a window open, then \<open>OnWindowCloseCancelled\<close> clears
  \<open>is_quiting_\<close>, then \<open>OnWindowAllClosed\<close> shuts down all the same.
\<close>

theorem exit_precedence_witness:
  "Exit (Some 3) True False (idle_browser [quiet_observer 1]) = Running exit_requested \<and>
   run [Do_OnWindowCloseCancelled] exit_requested = Running (exit_requested\<lparr>is_quiting := False\<rparr>) \<and>
   \<not> is_quiting (exit_requested\<lparr>is_quiting := False\<rparr>) \<and>
   is_shutdown (OnWindowAllClosed (exit_requested\<lparr>is_quiting := False\<rparr>))"
  using exit_precedence [OF Exit_idle cancel_exit_requested, THEN conjunct2, THEN conjunct2]
        Exit_idle cancel_exit_requested
  by simp

subsection \<open>Veto rounds\<close>

lemma new_events_HandleBeforeQuit:
  "new_events s (snd (HandleBeforeQuit s)) =
     snd (notify_prevent Cb_OnBeforeQuit OnBeforeQuit (observers s) False [])"
  by (simp add: HandleBeforeQuit_eq new_events_def)

lemma new_events_NotifyAndShutdown:
  "\<not> is_shutdown s \<Longrightarrow>
   new_events s (NotifyAndShutdown s) =
     snd (notify_prevent Cb_OnWillQuit OnWillQuit (observers s) False []) @
     (if fst (notify_prevent Cb_OnWillQuit OnWillQuit (observers s) False []) then []
      else map (\<lambda>ob. Notified (obs_id ob) Cb_OnQuit) (observers s) @
           (case quit_main_message_loop s of Some c \<Rightarrow> [Run_quit_closure c] | None \<Rightarrow> []))"
  by (simp add: NotifyAndShutdown_eq Shutdown_eq new_events_def)

lemma veto_writes_closure:
  "veto_writes (case q of Some c \<Rightarrow> [Run_quit_closure c] | None \<Rightarrow> []) = []"
  by (cases q) simp_all

lemma notified_ids_Asked_round:
  "notified_ids cb' (snd (notify_prevent cb h obs p [])) = (if cb' = cb then map obs_id obs else [])"
  by (simp add: notified_ids_def round_deliveries filter_map comp_def)

lemma notified_ids_Nil: "notified_ids cb [] = []"
  by (simp add: notified_ids_def)

lemma notified_ids_closure:
  "notified_ids cb (case q of Some c \<Rightarrow> [Run_quit_closure c] | None \<Rightarrow> []) = []"
  by (cases q) (simp_all add: notified_ids_def)

text \<open>
  C3. In the before-quit round of \<open>HandleBeforeQuit\<close> and in the will-quit round of
  \<open>NotifyAndShutdown\<close> every registered observer receives the callback exactly once, in
  registration order, whatever the observers before it wrote. When the observers only ever
  set the flag (none stores false), the round is vetoed exactly when at least one observer
  stored true: \<open>HandleBeforeQuit\<close> returns the negation of that, and \<open>NotifyAndShutdown\<close>
  shuts down exactly when no observer did.
\<close>

theorem veto_rounds_notify_everyone:
  "new_events s (snd (HandleBeforeQuit s)) =
     snd (notify_prevent Cb_OnBeforeQuit OnBeforeQuit (observers s) False []) \<and>
   deliveries (new_events s (snd (HandleBeforeQuit s))) =
     map (\<lambda>ob. (obs_id ob, Cb_OnBeforeQuit)) (observers s) \<and>
   ((\<forall>ob\<in>set (observers s). \<forall>p. OnBeforeQuit ob p \<noteq> Some False) \<longrightarrow>
      fst (HandleBeforeQuit s) =
        (Some True \<notin> set (veto_writes (new_events s (snd (HandleBeforeQuit s)))))) \<and>
   (\<not> is_shutdown s \<longrightarrow>
      take (length (observers s)) (deliveries (new_events s (NotifyAndShutdown s))) =
        map (\<lambda>ob. (obs_id ob, Cb_OnWillQuit)) (observers s) \<and>
      notified_ids Cb_OnWillQuit (new_events s (NotifyAndShutdown s)) = map obs_id (observers s)) \<and>
   (\<not> is_shutdown s \<and> (\<forall>ob\<in>set (observers s). \<forall>p. OnWillQuit ob p \<noteq> Some False) \<longrightarrow>
      is_shutdown (NotifyAndShutdown s) =
        (Some True \<notin> set (veto_writes (new_events s (NotifyAndShutdown s)))) \<and>
      is_quiting (NotifyAndShutdown s) =
        (Some True \<notin> set (veto_writes (new_events s (NotifyAndShutdown s)))))"
proof -
  let ?bq = "notify_prevent Cb_OnBeforeQuit OnBeforeQuit (observers s) False []"
  let ?wq = "notify_prevent Cb_OnWillQuit OnWillQuit (observers s) False []"
  have a: "new_events s (snd (HandleBeforeQuit s)) = snd ?bq"
    by (rule new_events_HandleBeforeQuit)
  have b: "deliveries (new_events s (snd (HandleBeforeQuit s))) =
      map (\<lambda>ob. (obs_id ob, Cb_OnBeforeQuit)) (observers s)"
    by (simp add: a round_deliveries)
  have c: "fst (HandleBeforeQuit s) =
      (Some True \<notin> set (veto_writes (new_events s (snd (HandleBeforeQuit s)))))"
    if "\<forall>ob\<in>set (observers s). \<forall>p. OnBeforeQuit ob p \<noteq> Some False"
    using round_flag [OF that, of Cb_OnBeforeQuit False] unfolding a by (simp add: HandleBeforeQuit_eq)
  have d: "take (length (observers s)) (deliveries (new_events s (NotifyAndShutdown s))) =
      map (\<lambda>ob. (obs_id ob, Cb_OnWillQuit)) (observers s)"
    if "\<not> is_shutdown s"
    by (simp add: new_events_NotifyAndShutdown [OF that] deliveries_append round_deliveries)
  have e: "notified_ids Cb_OnWillQuit (new_events s (NotifyAndShutdown s)) = map obs_id (observers s)"
    if "\<not> is_shutdown s"
    by (simp add: new_events_NotifyAndShutdown [OF that] notified_ids_append
          notified_ids_Asked_round notified_ids_round notified_ids_closure notified_ids_Nil)
  have w: "veto_writes (new_events s (NotifyAndShutdown s)) = veto_writes (snd ?wq)"
    if "\<not> is_shutdown s"
    by (simp add: new_events_NotifyAndShutdown [OF that] veto_writes_append veto_writes_Notified veto_writes_closure)
  have f: "is_shutdown (NotifyAndShutdown s) =
        (Some True \<notin> set (veto_writes (new_events s (NotifyAndShutdown s)))) \<and>
      is_quiting (NotifyAndShutdown s) =
        (Some True \<notin> set (veto_writes (new_events s (NotifyAndShutdown s))))"
    if ns: "\<not> is_shutdown s" and nf: "\<forall>ob\<in>set (observers s). \<forall>p. OnWillQuit ob p \<noteq> Some False"
    using round_flag [OF nf, of Cb_OnWillQuit False] ns
    unfolding w [OF ns] by (simp add: NotifyAndShutdown_eq Shutdown_eq)
  show ?thesis using a b c d e f by blast
qed

lemma veto_in_middle_observers:
  "observers veto_in_middle = [quiet_observer 1, vetoing_observer 2, quiet_observer 3]"
  by (simp add: veto_in_middle_def idle_browser_def)

text \<open>
  The witness: the second of three observers vetoes; the third is still asked, in both
  rounds, and both rounds are vetoed.
\<close>

theorem veto_rounds_notify_everyone_witness:
  "\<not> is_shutdown veto_in_middle \<and>
   new_events veto_in_middle (snd (HandleBeforeQuit veto_in_middle)) =
     [Asked 1 Cb_OnBeforeQuit None, Asked 2 Cb_OnBeforeQuit (Some True), Asked 3 Cb_OnBeforeQuit None] \<and>
   \<not> fst (HandleBeforeQuit veto_in_middle) \<and>
   notified_ids Cb_OnWillQuit (new_events veto_in_middle (NotifyAndShutdown veto_in_middle)) = [1, 2, 3] \<and>
   \<not> is_shutdown (NotifyAndShutdown veto_in_middle)"
proof -
  have ns: "\<not> is_shutdown veto_in_middle"
    by (simp add: veto_in_middle_def idle_browser_def)
  have bq: "\<forall>ob\<in>set (observers veto_in_middle). \<forall>p. OnBeforeQuit ob p \<noteq> Some False"
    by (simp add: veto_in_middle_observers quiet_observer_def vetoing_observer_def)
  have wq: "\<forall>ob\<in>set (observers veto_in_middle). \<forall>p. OnWillQuit ob p \<noteq> Some False"
    by (simp add: veto_in_middle_observers quiet_observer_def vetoing_observer_def)
  have ev: "snd (notify_prevent Cb_OnBeforeQuit OnBeforeQuit (observers veto_in_middle) False []) =
      [Asked 1 Cb_OnBeforeQuit None, Asked 2 Cb_OnBeforeQuit (Some True), Asked 3 Cb_OnBeforeQuit None]"
    by (simp add: veto_in_middle_observers quiet_observer_def vetoing_observer_def Let_def)
  have ids: "map obs_id (observers veto_in_middle) = [1, 2, 3]"
    by (simp add: veto_in_middle_observers quiet_observer_def vetoing_observer_def)
  have wr: "veto_writes (new_events veto_in_middle (NotifyAndShutdown veto_in_middle)) =
      [None, Some True, None]"
    by (simp add: new_events_NotifyAndShutdown [OF ns] veto_in_middle_observers
          quiet_observer_def vetoing_observer_def Let_def)
  show ?thesis
    using veto_rounds_notify_everyone [of veto_in_middle] ns bq wq ev ids wr by simp
qed

subsection \<open>Cancellation\<close>

lemma is_shutdown_Quit_open: "is_shutdown (Quit False s) = is_shutdown s"
  by (simp add: Quit_eq)

lemma observers_Quit_open: "observers (Quit False s) = observers s"
  by (simp add: Quit_eq)

text \<open>
  C4 (as amended). Start from a state in which \<open>is_exiting_\<close> is false. After \<open>Quit()\<close>
  with a window open and then \<open>OnWindowCloseCancelled()\<close>, \<open>is_quiting_\<close> is false, and
  \<open>OnWindowAllClosed()\<close> does nothing but deliver the plain \<open>OnWindowAllClosed\<close> callback
  to every observer: no will-quit round, no \<open>OnQuit\<close>, no closure, and \<open>is_shutdown_\<close> is
  what it was. When the quit was not yet under way and no observer vetoed the before-quit
  round, that \<open>Quit()\<close> had set \<open>is_quiting_\<close> and asked the window list to close all
  windows.
\<close>

theorem cancelled_quit_falls_through:
  assumes "\<not> is_exiting s"
  shows
   "\<not> is_quiting (OnWindowCloseCancelled (Quit False s)) \<and>
    OnWindowAllClosed (OnWindowCloseCancelled (Quit False s)) =
      (OnWindowCloseCancelled (Quit False s))
        \<lparr>trace := trace (OnWindowCloseCancelled (Quit False s)) @
                  map (\<lambda>ob. Notified (obs_id ob) Cb_OnWindowAllClosed) (observers s)\<rparr> \<and>
    is_shutdown (OnWindowAllClosed (OnWindowCloseCancelled (Quit False s))) = is_shutdown s \<and>
    (\<not> is_quiting s \<and> fst (HandleBeforeQuit s) \<longrightarrow>
       is_quiting (Quit False s) \<and>
       new_events s (Quit False s) =
         snd (notify_prevent Cb_OnBeforeQuit OnBeforeQuit (observers s) False []) @ [Call_CloseAllWindows])"
proof -
  let ?s2 = "OnWindowCloseCancelled (Quit False s)"
  have q: "\<not> is_quiting ?s2"
    by (simp add: OnWindowCloseCancelled_def)
  have e: "\<not> is_exiting ?s2"
    using assms by (simp add: OnWindowCloseCancelled_def is_exiting_Quit)
  have o: "observers ?s2 = observers s"
    by (simp add: OnWindowCloseCancelled_def observers_Quit_open)
  have d: "is_shutdown ?s2 = is_shutdown s"
    by (simp add: OnWindowCloseCancelled_def is_shutdown_Quit_open)
  have plain: "OnWindowAllClosed ?s2 =
      ?s2\<lparr>trace := trace ?s2 @ map (\<lambda>ob. Notified (obs_id ob) Cb_OnWindowAllClosed) (observers s)\<rparr>"
    using q e o by (simp add: OnWindowAllClosed_def notify_all_eq)
  have sd: "is_shutdown (OnWindowAllClosed ?s2) = is_shutdown s"
    unfolding plain using d by simp
  have started: "is_quiting (Quit False s) \<and>
       new_events s (Quit False s) =
         snd (notify_prevent Cb_OnBeforeQuit OnBeforeQuit (observers s) False []) @ [Call_CloseAllWindows]"
    if "\<not> is_quiting s" "fst (HandleBeforeQuit s)"
    using that by (simp add: Quit_eq HandleBeforeQuit_eq new_events_def)
  show ?thesis using q plain sd started by blast
qed

text \<open>
  The witness: one observer that does not veto, one window open. After the cancellation
  the last window closes, and nothing but \<open>OnWindowAllClosed\<close> is delivered.
\<close>

theorem cancelled_quit_falls_through_witness:
  "\<not> is_exiting one_quiet \<and> \<not> is_shutdown one_quiet \<and> \<not> is_quiting one_quiet \<and>
   fst (HandleBeforeQuit one_quiet) \<and>
   is_quiting (Quit False one_quiet) \<and>
   new_events (OnWindowCloseCancelled (Quit False one_quiet))
     (OnWindowAllClosed (OnWindowCloseCancelled (Quit False one_quiet))) =
     [Notified 1 Cb_OnWindowAllClosed] \<and>
   \<not> is_shutdown (OnWindowAllClosed (OnWindowCloseCancelled (Quit False one_quiet)))"
proof -
  have a: "\<not> is_exiting one_quiet" "\<not> is_shutdown one_quiet" "\<not> is_quiting one_quiet"
    by (simp_all add: one_quiet_def idle_browser_def)
  have b: "fst (HandleBeforeQuit one_quiet)"
    by (simp add: HandleBeforeQuit_eq one_quiet_def idle_browser_def quiet_observer_def Let_def)
  have c: "map (\<lambda>ob. Notified (obs_id ob) Cb_OnWindowAllClosed) (observers one_quiet) =
      [Notified 1 Cb_OnWindowAllClosed]"
    by (simp add: one_quiet_def idle_browser_def quiet_observer_def)
  show ?thesis
    using cancelled_quit_falls_through [OF a(1)] a b c by (auto simp add: new_events_def)
qed

text \<open>
  As the claim is written, from every state that is not shut down, it fails: when
  \<open>Exit()\<close> has been called before (a window still open), \<open>Quit()\<close> returns at once,
  the cancellation clears \<open>is_quiting_\<close>, and \<open>OnWindowAllClosed()\<close> takes the
  \<open>is_exiting_\<close> branch and shuts down, with \<open>OnQuit\<close> delivered instead of
  \<open>OnWindowAllClosed\<close>.
\<close>

theorem cancelled_quit_counterexample:
  "\<not> is_shutdown exit_requested \<and>
   is_shutdown (OnWindowAllClosed (OnWindowCloseCancelled (Quit False exit_requested))) \<and>
   new_events (OnWindowCloseCancelled (Quit False exit_requested))
     (OnWindowAllClosed (OnWindowCloseCancelled (Quit False exit_requested))) =
     [Notified 1 Cb_OnQuit]"
  by (simp add: exit_requested_def idle_browser_def quiet_observer_def Quit_def
        OnWindowCloseCancelled_def OnWindowAllClosed_def Shutdown_eq new_events_def)

subsection \<open>The quitting flag after shutdown\<close>

lemma NotifyAndShutdown_done: "is_shutdown s \<Longrightarrow> NotifyAndShutdown s = s"
  by (simp add: NotifyAndShutdown_def)

text \<open>
  C5 (as amended). In a state in which \<open>is_shutdown_\<close> and \<open>is_quiting_\<close> are both true,
  as \<open>Shutdown()\<close> leaves them, \<open>Quit\<close>, \<open>Shutdown\<close> and \<open>OnWindowAllClosed\<close> change
  nothing, and \<open>Exit\<close> leaves \<open>is_quiting_\<close> true, whether it returns or exits the
  process. \<open>OnWindowCloseCancelled\<close> has no test of \<open>is_shutdown_\<close>: it clears
  \<open>is_quiting_\<close> as in any other state. \<open>is_shutdown_\<close> stays true throughout.
\<close>

theorem quitting_after_shutdown:
  assumes "is_shutdown s" and "is_quiting s"
  shows
   "Quit windows_empty s = s \<and> Shutdown s = s \<and> OnWindowAllClosed s = s \<and>
    is_quiting (last_state (Exit arg loop_ready windows_empty s)) \<and>
    is_shutdown (last_state (Exit arg loop_ready windows_empty s)) \<and>
    OnWindowCloseCancelled s = s\<lparr>is_quiting := False\<rparr> \<and>
    is_shutdown (OnWindowCloseCancelled s)"
proof -
  have a: "Quit windows_empty s = s" using assms(2) by (simp add: Quit_def)
  have b: "Shutdown s = s" using assms(1) by (rule Shutdown_done)
  have c: "OnWindowAllClosed s = s"
    using assms by (simp add: OnWindowAllClosed_def Shutdown_done NotifyAndShutdown_done)
  have d: "is_quiting (last_state (Exit arg loop_ready windows_empty s)) \<and>
      is_shutdown (last_state (Exit arg loop_ready windows_empty s))"
    using assms by (simp add: Exit_def Let_def Shutdown_done)
  have e: "OnWindowCloseCancelled s = s\<lparr>is_quiting := False\<rparr>"
    using assms(2) by (simp add: OnWindowCloseCancelled_def)
  have f: "is_shutdown (OnWindowCloseCancelled s)"
    unfolding e using assms(1) by simp
  show ?thesis using a b c d e f by blast
qed

text \<open>The witness: the state after a shutdown with one observer and a stored closure.\<close>

theorem quitting_after_shutdown_witness:
  "is_shutdown after_shutdown \<and> is_quiting after_shutdown \<and>
   Quit True after_shutdown = after_shutdown \<and>
   OnWindowAllClosed after_shutdown = after_shutdown \<and>
   is_quiting (last_state (Exit (Some 1) True True after_shutdown))"
proof -
  have a: "is_shutdown after_shutdown" and b: "is_quiting after_shutdown"
    by (simp_all add: after_shutdown_eq)
  show ?thesis
    using quitting_after_shutdown [OF a b, of True "Some 1" True] a b by simp
qed

text \<open>
  As the claim is written, with \<open>OnWindowCloseCancelled\<close> among the operations, it fails:
  after a shutdown the flag is true, and a cancelled window close sets it to false.
\<close>

theorem quitting_after_shutdown_counterexample:
  "is_shutdown after_shutdown \<and> is_quiting after_shutdown \<and>
   \<not> is_quiting (OnWindowCloseCancelled after_shutdown)"
  by (simp add: after_shutdown_eq OnWindowCloseCancelled_def)

subsection \<open>Exit before the message loop is ready\<close>

text \<open>
  C8. When \<open>SetExitCode\<close> reports that the message loop is not ready, \<open>Exit\<close> ends the
  process with the code it was given (0 when the arguments hold none), for every code. On
  the way it delivers no callback to any observer, runs no closure, and changes nothing
  of the browser but the trace entry of the \<open>SetExitCode\<close> call.
\<close>

theorem exit_before_loop_is_ready:
  "Exit (Some code) False windows_empty s =
     ProcessExit code (s\<lparr>trace := trace s @ [Call_SetExitCode code]\<rparr>) \<and>
   Exit None False windows_empty s =
     ProcessExit 0 (s\<lparr>trace := trace s @ [Call_SetExitCode 0]\<rparr>) \<and>
   deliveries (new_events s (last_state (Exit arg False windows_empty s))) = [] \<and>
   closure_runs (new_events s (last_state (Exit arg False windows_empty s))) = []"
  by (cases arg) (simp_all add: Exit_def Let_def new_events_def)

text \<open>The witness: \<open>Exit(7)\<close> with three observers registered, one of them vetoing.\<close>

theorem exit_before_loop_is_ready_witness:
  "Exit (Some 7) False True veto_in_middle =
     ProcessExit 7 (veto_in_middle\<lparr>trace := trace veto_in_middle @ [Call_SetExitCode 7]\<rparr>) \<and>
   deliveries (new_events veto_in_middle (last_state (Exit (Some 7) False True veto_in_middle))) = []"
  using exit_before_loop_is_ready [of 7 True veto_in_middle "Some 7"] by blast

subsection \<open>Notifications that pass through\<close>

lemma lifecycle_trace: "lifecycle (s\<lparr>trace := tr\<rparr>) = lifecycle s"
  by (simp add: lifecycle_def)

text \<open>
  C9. \<open>OpenFile\<close>, \<open>OpenURL\<close> and \<open>Activate\<close> deliver their callback to every registered
  observer, once each and in registration order, and change nothing of the browser but
  the trace: \<open>is_quiting_\<close>, \<open>is_exiting_\<close>, \<open>is_shutdown_\<close>, \<open>is_ready_\<close> and the stored
  quit closure are what they were, from every state.
\<close>

theorem app_notifications_pass_through:
  "snd (OpenFile file_path s) =
     s\<lparr>trace := trace s @
        snd (notify_prevent (Cb_OnOpenFile file_path) (\<lambda>ob. OnOpenFile ob file_path) (observers s) False [])\<rparr> \<and>
   deliveries (new_events s (snd (OpenFile file_path s))) =
     map (\<lambda>ob. (obs_id ob, Cb_OnOpenFile file_path)) (observers s) \<and>
   OpenURL url s =
     s\<lparr>trace := trace s @ map (\<lambda>ob. Notified (obs_id ob) (Cb_OnOpenURL url)) (observers s)\<rparr> \<and>
   Activate has_visible_windows s =
     s\<lparr>trace := trace s @
        map (\<lambda>ob. Notified (obs_id ob) (Cb_OnActivate has_visible_windows)) (observers s)\<rparr> \<and>
   lifecycle (snd (OpenFile file_path s)) = lifecycle s \<and>
   lifecycle (OpenURL url s) = lifecycle s \<and>
   lifecycle (Activate has_visible_windows s) = lifecycle s"
proof -
  have a: "snd (OpenFile file_path s) =
     s\<lparr>trace := trace s @
        snd (notify_prevent (Cb_OnOpenFile file_path) (\<lambda>ob. OnOpenFile ob file_path) (observers s) False [])\<rparr>"
    unfolding OpenFile_def by (subst notify_prevent_split) (simp add: Let_def)
  have b: "deliveries (new_events s (snd (OpenFile file_path s))) =
     map (\<lambda>ob. (obs_id ob, Cb_OnOpenFile file_path)) (observers s)"
    unfolding a by (simp add: new_events_def round_deliveries)
  have c: "OpenURL url s =
     s\<lparr>trace := trace s @ map (\<lambda>ob. Notified (obs_id ob) (Cb_OnOpenURL url)) (observers s)\<rparr>"
    by (simp add: OpenURL_def notify_all_eq)
  have d: "Activate has_visible_windows s =
     s\<lparr>trace := trace s @
        map (\<lambda>ob. Notified (obs_id ob) (Cb_OnActivate has_visible_windows)) (observers s)\<rparr>"
    by (simp add: Activate_def notify_all_eq)
  have e: "lifecycle (snd (OpenFile file_path s)) = lifecycle s"
    unfolding a by (rule lifecycle_trace)
  have f: "lifecycle (OpenURL url s) = lifecycle s"
    unfolding c by (rule lifecycle_trace)
  have g: "lifecycle (Activate has_visible_windows s) = lifecycle s"
    unfolding d by (rule lifecycle_trace)
  show ?thesis using a b c d e f g by blast
qed

text \<open>The witness: three observers, the second of which sets the flag of \<open>OnOpenFile\<close>.\<close>

theorem app_notifications_pass_through_witness:
  "deliveries (new_events veto_in_middle (snd (OpenFile ''a.txt'' veto_in_middle))) =
     [(1, Cb_OnOpenFile ''a.txt''), (2, Cb_OnOpenFile ''a.txt''), (3, Cb_OnOpenFile ''a.txt'')] \<and>
   lifecycle (snd (OpenFile ''a.txt'' veto_in_middle)) = (False, False, False, False, None) \<and>
   lifecycle (OpenURL ''x:y'' veto_in_middle) = (False, False, False, False, None) \<and>
   lifecycle (Activate True veto_in_middle) = (False, False, False, False, None)"
proof -
  have a: "map (\<lambda>ob. (obs_id ob, Cb_OnOpenFile ''a.txt'')) (observers veto_in_middle) =
      [(1, Cb_OnOpenFile ''a.txt''), (2, Cb_OnOpenFile ''a.txt''), (3, Cb_OnOpenFile ''a.txt'')]"
    by (simp add: veto_in_middle_observers quiet_observer_def vetoing_observer_def)
  have b: "lifecycle veto_in_middle = (False, False, False, False, None)"
    by (simp add: lifecycle_def veto_in_middle_def idle_browser_def)
  show ?thesis
    using app_notifications_pass_through [of "''a.txt''" veto_in_middle "''x:y''" True] a b
    by (auto simp del: One_nat_def)
qed

subsection \<open>A vetoed will-quit round\<close>

lemma trace_NotifyAndShutdown:
  "trace (NotifyAndShutdown s) = trace s @ new_events s (NotifyAndShutdown s)"
  by (simp add: NotifyAndShutdown_eq Shutdown_eq new_events_def)

lemma notified_ids_BeforeQuit_NotifyAndShutdown:
  "notified_ids Cb_OnBeforeQuit (new_events s (NotifyAndShutdown s)) = []"
proof (cases "is_shutdown s")
  case True
  then show ?thesis
    by (simp add: NotifyAndShutdown_done new_events_def notified_ids_Nil)
next
  case False
  then show ?thesis
    by (simp add: new_events_NotifyAndShutdown notified_ids_append notified_ids_Asked_round
          notified_ids_round notified_ids_closure notified_ids_Nil)
qed

lemma Quit_asks_everyone:
  assumes "\<not> is_quiting s"
  shows "notified_ids Cb_OnBeforeQuit (new_events s (Quit windows_empty s)) = map obs_id (observers s)"
proof -
  let ?bq = "snd (notify_prevent Cb_OnBeforeQuit OnBeforeQuit (observers s) False [])"
  let ?s2 = "s\<lparr>trace := trace s @ ?bq, is_quiting := True\<rparr>"
  have ids: "notified_ids Cb_OnBeforeQuit ?bq = map obs_id (observers s)"
    by (simp add: notified_ids_Asked_round)
  define rest where "rest = new_events ?s2 (NotifyAndShutdown ?s2)"
  have r: "notified_ids Cb_OnBeforeQuit rest = []"
    unfolding rest_def by (rule notified_ids_BeforeQuit_NotifyAndShutdown)
  have t: "trace (NotifyAndShutdown ?s2) = trace s @ ?bq @ rest"
    using trace_NotifyAndShutdown [of ?s2] unfolding rest_def by simp
  have n: "new_events s (NotifyAndShutdown ?s2) = ?bq @ rest"
    by (simp add: new_events_def t)
  have m: "notified_ids Cb_OnBeforeQuit (new_events s (NotifyAndShutdown ?s2)) = map obs_id (observers s)"
    unfolding n by (simp only: notified_ids_append ids r append_Nil2)
  have c: "notified_ids Cb_OnBeforeQuit [Call_CloseAllWindows] = []"
    by (simp add: notified_ids_def)
  show ?thesis
    using assms ids m c by (simp add: Quit_eq new_events_def notified_ids_append)
qed

text \<open>
  C10. When \<open>NotifyAndShutdown\<close> runs its will-quit round (\<open>is_shutdown_\<close> is false) and
  the round ends with the flag set, the state it leaves is the state it found with
  \<open>is_quiting_\<close> cleared and the round added to the trace. So \<open>is_shutdown_\<close> is still
  false, \<open>is_exiting_\<close> and the stored quit closure are what they were, no \<open>OnQuit\<close> is
  delivered and no closure is run. A \<open>Quit()\<close> after that does not return early: it
  delivers \<open>OnBeforeQuit\<close> to every observer again.
\<close>

theorem will_quit_veto_only_clears_quitting:
  assumes "\<not> is_shutdown s"
      and "fst (notify_prevent Cb_OnWillQuit OnWillQuit (observers s) False (trace s))"
  shows
   "NotifyAndShutdown s =
      s\<lparr>is_quiting := False,
        trace := trace s @ snd (notify_prevent Cb_OnWillQuit OnWillQuit (observers s) False [])\<rparr> \<and>
    \<not> is_quiting (NotifyAndShutdown s) \<and>
    \<not> is_shutdown (NotifyAndShutdown s) \<and>
    is_exiting (NotifyAndShutdown s) = is_exiting s \<and>
    is_ready (NotifyAndShutdown s) = is_ready s \<and>
    quit_main_message_loop (NotifyAndShutdown s) = quit_main_message_loop s \<and>
    notified_ids Cb_OnQuit (new_events s (NotifyAndShutdown s)) = [] \<and>
    closure_runs (new_events s (NotifyAndShutdown s)) = [] \<and>
    notified_ids Cb_OnBeforeQuit
      (new_events (NotifyAndShutdown s) (Quit windows_empty (NotifyAndShutdown s))) =
      map obs_id (observers s)"
proof -
  let ?wq = "notify_prevent Cb_OnWillQuit OnWillQuit (observers s) False []"
  have v: "fst ?wq"
    using assms(2) notify_prevent_flag [of Cb_OnWillQuit OnWillQuit "observers s" False "trace s"]
    by simp
  have eq: "NotifyAndShutdown s = s\<lparr>is_quiting := False, trace := trace s @ snd ?wq\<rparr>"
    using assms(1) v by (simp add: NotifyAndShutdown_eq)
  have ev: "new_events s (NotifyAndShutdown s) = snd ?wq"
    unfolding eq by (simp add: new_events_def)
  have nq: "notified_ids Cb_OnQuit (new_events s (NotifyAndShutdown s)) = []"
    unfolding ev by (simp add: notified_ids_Asked_round)
  have nc: "closure_runs (new_events s (NotifyAndShutdown s)) = []"
    unfolding ev by (rule round_closure_runs)
  have q: "\<not> is_quiting (NotifyAndShutdown s)"
    unfolding eq by simp
  have again: "notified_ids Cb_OnBeforeQuit
      (new_events (NotifyAndShutdown s) (Quit windows_empty (NotifyAndShutdown s))) =
      map obs_id (observers s)"
    using Quit_asks_everyone [OF q, of windows_empty] by (simp add: eq)
  have fields: "\<not> is_shutdown (NotifyAndShutdown s) \<and>
      is_exiting (NotifyAndShutdown s) = is_exiting s \<and>
      is_ready (NotifyAndShutdown s) = is_ready s \<and>
      quit_main_message_loop (NotifyAndShutdown s) = quit_main_message_loop s"
    unfolding eq using assms(1) by simp
  show ?thesis using eq q fields nq nc again by blast
qed

text \<open>
  The witness: the observer vetoes the will-quit round; the closure stays stored, and the
  next \<open>Quit()\<close> asks the observer again.
\<close>

theorem will_quit_veto_only_clears_quitting_witness:
  "\<not> is_shutdown quit_under_way \<and>
   fst (notify_prevent Cb_OnWillQuit OnWillQuit (observers quit_under_way) False (trace quit_under_way)) \<and>
   is_quiting quit_under_way \<and>
   \<not> is_quiting (NotifyAndShutdown quit_under_way) \<and>
   quit_main_message_loop (NotifyAndShutdown quit_under_way) = Some 5 \<and>
   notified_ids Cb_OnBeforeQuit
     (new_events (NotifyAndShutdown quit_under_way) (Quit True (NotifyAndShutdown quit_under_way))) = [1]"
proof -
  have a: "\<not> is_shutdown quit_under_way"
    by (simp add: quit_under_way_def idle_browser_def)
  have b: "fst (notify_prevent Cb_OnWillQuit OnWillQuit (observers quit_under_way) False (trace quit_under_way))"
    by (simp add: quit_under_way_def idle_browser_def will_quit_vetoer_def Let_def)
  have c: "is_quiting quit_under_way" "quit_main_message_loop quit_under_way = Some 5"
      "map obs_id (observers quit_under_way) = [1]"
    by (simp_all add: quit_under_way_def idle_browser_def will_quit_vetoer_def)
  show ?thesis
    using will_quit_veto_only_clears_quitting [OF a b, of True] a b c by (auto simp del: One_nat_def)
qed

subsection \<open>The ready signal\<close>

lemma ready_Shutdown:
  "is_ready (Shutdown s) = is_ready s" "ready_promise (Shutdown s) = ready_promise s"
  by (simp_all add: Shutdown_eq)

lemma ready_NotifyAndShutdown:
  "is_ready (NotifyAndShutdown s) = is_ready s"
  "ready_promise (NotifyAndShutdown s) = ready_promise s"
  by (simp_all add: NotifyAndShutdown_eq ready_Shutdown)

lemma ready_Quit:
  "is_ready (Quit windows_empty s) = is_ready s"
  "ready_promise (Quit windows_empty s) = ready_promise s"
  by (simp_all add: Quit_eq ready_NotifyAndShutdown)

lemma ready_OnWindowAllClosed:
  "is_ready (OnWindowAllClosed s) = is_ready s"
  "ready_promise (OnWindowAllClosed s) = ready_promise s"
  by (simp_all add: OnWindowAllClosed_def ready_Shutdown ready_NotifyAndShutdown)

lemma ready_Exit:
  "Exit arg loop_ready windows_empty s = Running s' \<Longrightarrow>
   is_ready s' = is_ready s \<and> ready_promise s' = ready_promise s"
  by (auto simp add: Exit_def Let_def ready_Shutdown split: if_splits)

lemma ready_DidFinishLaunching:
  "is_ready (DidFinishLaunching user_data info s) \<and>
   (\<forall>p. ready_promise (DidFinishLaunching user_data info s) = Some p \<longrightarrow> resolved p)"
  by (cases user_data; cases "ready_promise s")
     (simp_all add: DidFinishLaunching_def Let_def Resolve_def)

lemma ready_WhenReady:
  assumes "is_ready s" and "\<forall>p. ready_promise s = Some p \<longrightarrow> resolved p"
  shows "is_ready (snd (WhenReady i s)) \<and>
         (\<forall>p. ready_promise (snd (WhenReady i s)) = Some p \<longrightarrow> resolved p)"
  using assms
  by (cases "ready_promise s") (simp_all add: WhenReady_def Let_def Resolve_def make_promise_def)

lemma ready_step:
  assumes "is_ready s" and "\<forall>p. ready_promise s = Some p \<longrightarrow> resolved p"
      and "step c s = Running s'"
  shows "is_ready s' \<and> (\<forall>p. ready_promise s' = Some p \<longrightarrow> resolved p)"
proof (cases c)
  case (Do_Exit arg loop_ready windows_empty)
  then show ?thesis using assms ready_Exit [of arg loop_ready windows_empty s s'] by simp
next
  case (Do_DidFinishLaunching user_data info)
  then show ?thesis using assms(3) ready_DidFinishLaunching [of user_data info s] by auto
next
  case (Do_WhenReady i)
  then show ?thesis using assms(3) ready_WhenReady [OF assms(1,2), of i] by auto
next
  case (Do_OpenFile file_path)
  then show ?thesis using assms by (auto simp add: OpenFile_def split: prod.splits)
qed (use assms in \<open>auto simp add: ready_Shutdown ready_Quit ready_OnWindowAllClosed
       OpenURL_def Activate_def WillFinishLaunching_def OnAccessibilitySupportChanged_def
       RequestLogin_def PreMainMessageLoopRun_def SetMainMessageLoopQuitClosure_def
       OnWindowCloseCancelled_def split: if_splits\<close>)

lemma ready_run:
  assumes "is_ready s" and "\<forall>p. ready_promise s = Some p \<longrightarrow> resolved p"
      and "run cs s = Running s'"
  shows "is_ready s' \<and> (\<forall>p. ready_promise s' = Some p \<longrightarrow> resolved p)"
  using assms
proof (induction cs arbitrary: s)
  case Nil
  then show ?case by simp
next
  case (Cons c cs)
  from Cons.prems(3) obtain s1 where st: "step c s = Running s1" and rest: "run cs s1 = Running s'"
    by (auto split: outcome.splits)
  from ready_step [OF Cons.prems(1,2) st]
  have "is_ready s1" and "\<forall>p. ready_promise s1 = Some p \<longrightarrow> resolved p" by simp_all
  from Cons.IH [OF this rest] show ?case .
qed

text \<open>
  C7. Let \<open>DidFinishLaunching\<close> have run, from any state, with or without a ready promise
  already handed out, and let any sequence of calls follow that leaves the process
  running. Then \<open>is_ready_\<close> is true, and \<open>WhenReady()\<close> returns the handle of a resolved
  promise: the one stored, left as it is, or, when none is stored yet, a promise it
  creates, resolves and stores.
\<close>

theorem ready_signal_replay:
  assumes "run calls (DidFinishLaunching user_data info s) = Running s'"
  shows
   "is_ready s' \<and>
    resolved (fst (WhenReady i s')) \<and>
    ready_promise (snd (WhenReady i s')) = Some (fst (WhenReady i s')) \<and>
    (ready_promise s' = None \<longrightarrow>
       WhenReady i s' = (\<lparr>isolate = i, resolved = True\<rparr>,
                         s'\<lparr>ready_promise := Some \<lparr>isolate = i, resolved = True\<rparr>\<rparr>)) \<and>
    (\<forall>p. ready_promise s' = Some p \<longrightarrow> WhenReady i s' = (p, s'))"
proof -
  have start: "is_ready (DidFinishLaunching user_data info s)"
      "\<forall>p. ready_promise (DidFinishLaunching user_data info s) = Some p \<longrightarrow> resolved p"
    using ready_DidFinishLaunching [of user_data info s] by simp_all
  from ready_run [OF start assms]
  have r: "is_ready s'" and p: "\<forall>p. ready_promise s' = Some p \<longrightarrow> resolved p" by simp_all
  show ?thesis
    using r p
    by (cases "ready_promise s'")
       (simp_all add: WhenReady_def Let_def Resolve_def make_promise_def GetHandle_def)
qed

text \<open>
  The witness, in both orders: \<open>WhenReady\<close> only after \<open>DidFinishLaunching\<close>, and
  \<open>WhenReady\<close> once before it and once after.
\<close>

theorem ready_signal_replay_witness:
  "run [] (DidFinishLaunching None [] two_quiet) = Running (DidFinishLaunching None [] two_quiet) \<and>
   fst (WhenReady 1 (DidFinishLaunching None [] two_quiet)) = \<lparr>isolate = 1, resolved = True\<rparr> \<and>
   run [] (DidFinishLaunching None [] (snd (WhenReady 2 two_quiet))) =
     Running (DidFinishLaunching None [] (snd (WhenReady 2 two_quiet))) \<and>
   fst (WhenReady 2 two_quiet) = \<lparr>isolate = 2, resolved = False\<rparr> \<and>
   fst (WhenReady 1 (DidFinishLaunching None [] (snd (WhenReady 2 two_quiet)))) =
     \<lparr>isolate = 2, resolved = True\<rparr>"
proof -
  have a: "run [] (DidFinishLaunching None [] two_quiet) = Running (DidFinishLaunching None [] two_quiet)"
    by simp
  have b: "run [] (DidFinishLaunching None [] (snd (WhenReady 2 two_quiet))) =
     Running (DidFinishLaunching None [] (snd (WhenReady 2 two_quiet)))"
    by simp
  have c: "ready_promise (DidFinishLaunching None [] two_quiet) = None"
    by (simp add: DidFinishLaunching_def two_quiet_def idle_browser_def Let_def)
  have d: "fst (WhenReady 2 two_quiet) = \<lparr>isolate = 2, resolved = False\<rparr>"
    by (simp add: WhenReady_def two_quiet_def idle_browser_def Let_def make_promise_def GetHandle_def)
  have e: "ready_promise (DidFinishLaunching None [] (snd (WhenReady 2 two_quiet))) =
      Some \<lparr>isolate = 2, resolved = True\<rparr>"
    by (simp add: DidFinishLaunching_def WhenReady_def two_quiet_def idle_browser_def Let_def
          make_promise_def Resolve_def)
  show ?thesis
    using ready_signal_replay [OF a, of 1] ready_signal_replay [OF b, of 1] a b c d e
    by auto
qed

subsection \<open>The quit closure\<close>

lemma accounted_for_fields:
  "accounted_for n c (s\<lparr>is_quiting := b\<rparr>) = accounted_for n c s"
  "accounted_for n c (s\<lparr>is_exiting := b\<rparr>) = accounted_for n c s"
  "accounted_for n c (s\<lparr>is_ready := b\<rparr>) = accounted_for n c s"
  "accounted_for n c (s\<lparr>observers := obs\<rparr>) = accounted_for n c s"
  "accounted_for n c (s\<lparr>ready_promise := p\<rparr>) = accounted_for n c s"
  by (simp_all add: accounted_for_def)

lemma accounted_for_trace:
  assumes "accounted_for n c s" and "closure_runs evs = []"
  shows "accounted_for n c (s\<lparr>trace := trace s @ evs\<rparr>)"
  using assms by (simp add: accounted_for_def closure_runs_append)

lemma accounted_for_Shutdown:
  assumes "accounted_for n c s"
  shows "accounted_for n c (Shutdown s)"
proof (cases "is_shutdown s")
  case True
  then show ?thesis using assms by (simp add: Shutdown_done)
next
  case False
  then have "quit_main_message_loop s = Some c"
      and "count_list (closure_runs (drop n (trace s))) c = 0" and "n \<le> length (trace s)"
    using assms by (simp_all add: accounted_for_def)
  then show ?thesis
    using False
    by (simp add: Shutdown_eq accounted_for_def closure_runs_append closure_runs_Notified)
qed

lemma accounted_for_NotifyAndShutdown:
  assumes "accounted_for n c s"
  shows "accounted_for n c (NotifyAndShutdown s)"
proof -
  let ?wq = "snd (notify_prevent Cb_OnWillQuit OnWillQuit (observers s) False [])"
  have a: "accounted_for n c (s\<lparr>trace := trace s @ ?wq\<rparr>)"
    using assms by (rule accounted_for_trace) (rule round_closure_runs)
  have b: "accounted_for n c (s\<lparr>is_quiting := False, trace := trace s @ ?wq\<rparr>)"
    using accounted_for_trace [of n c "s\<lparr>is_quiting := False\<rparr>" ?wq] assms
    by (simp add: accounted_for_fields round_closure_runs)
  show ?thesis
    using assms a b by (simp add: NotifyAndShutdown_eq accounted_for_Shutdown)
qed

lemma accounted_for_Quit:
  assumes "accounted_for n c s"
  shows "accounted_for n c (Quit windows_empty s)"
proof -
  let ?bq = "snd (notify_prevent Cb_OnBeforeQuit OnBeforeQuit (observers s) False [])"
  have r: "closure_runs ?bq = []" by (rule round_closure_runs)
  have r': "closure_runs (?bq @ [Call_CloseAllWindows]) = []"
    by (simp add: closure_runs_append r)
  have a: "accounted_for n c (s\<lparr>is_quiting := b, trace := trace s @ ?bq\<rparr>)" for b
    using accounted_for_trace [of n c "s\<lparr>is_quiting := b\<rparr>" ?bq] assms r
    by (simp add: accounted_for_fields)
  have a': "accounted_for n c (s\<lparr>trace := trace s @ ?bq, is_quiting := True\<rparr>)"
    using accounted_for_trace [OF assms r] by (simp add: accounted_for_fields)
  have b: "accounted_for n c (s\<lparr>is_quiting := True, trace := trace s @ ?bq @ [Call_CloseAllWindows]\<rparr>)"
    using accounted_for_trace [of n c "s\<lparr>is_quiting := True\<rparr>" "?bq @ [Call_CloseAllWindows]"] assms r'
    by (simp add: accounted_for_fields)
  show ?thesis
    using assms a [of False] b accounted_for_NotifyAndShutdown [OF a']
    by (simp add: Quit_eq)
qed

lemma accounted_for_notify_all:
  assumes "accounted_for n c s"
  shows "accounted_for n c (s\<lparr>trace := notify_all cb (observers s) (trace s)\<rparr>)"
  unfolding notify_all_eq using assms by (rule accounted_for_trace) (rule closure_runs_Notified)

lemma accounted_for_OnWindowAllClosed:
  assumes "accounted_for n c s"
  shows "accounted_for n c (OnWindowAllClosed s)"
  using assms
  by (simp add: OnWindowAllClosed_def accounted_for_Shutdown accounted_for_NotifyAndShutdown
        accounted_for_notify_all)

lemma accounted_for_Exit:
  assumes "accounted_for n c s"
  shows "accounted_for n c (last_state (Exit arg loop_ready windows_empty s))"
proof -
  let ?code = "case arg of Some c \<Rightarrow> c | None \<Rightarrow> 0"
  let ?s0 = "s\<lparr>trace := trace s @ [Call_SetExitCode ?code]\<rparr>"
  let ?s2 = "?s0\<lparr>is_quiting := True, is_exiting := True\<rparr>"
  have a: "accounted_for n c ?s0"
    using assms by (rule accounted_for_trace) simp
  then have b: "accounted_for n c ?s2"
    by (simp add: accounted_for_fields)
  have c: "accounted_for n c (?s2\<lparr>trace := trace ?s2 @ [Call_DestroyAllWindows]\<rparr>)"
    using b by (rule accounted_for_trace) simp
  show ?thesis
    using a accounted_for_Shutdown [OF b] c by (simp add: Exit_def Let_def)
qed

lemma accounted_for_step:
  assumes "accounted_for n c s"
      and "\<And>d. call = Do_SetMainMessageLoopQuitClosure d \<Longrightarrow> is_shutdown s \<and> d \<noteq> c"
  shows "accounted_for n c (last_state (step call s))"
proof (cases call)
  case (Do_Quit windows_empty)
  then show ?thesis using assms(1) by (simp add: accounted_for_Quit)
next
  case (Do_Exit arg loop_ready windows_empty)
  then show ?thesis using assms(1) by (simp add: accounted_for_Exit)
next
  case Do_Shutdown
  then show ?thesis using assms(1) by (simp add: accounted_for_Shutdown)
next
  case (Do_OpenFile file_path)
  have "snd (OpenFile file_path s) =
     s\<lparr>trace := trace s @
        snd (notify_prevent (Cb_OnOpenFile file_path) (\<lambda>ob. OnOpenFile ob file_path) (observers s) False [])\<rparr>"
    unfolding OpenFile_def by (subst notify_prevent_split) (simp add: Let_def)
  then show ?thesis
    using Do_OpenFile accounted_for_trace [OF assms(1) round_closure_runs] by simp
next
  case (Do_DidFinishLaunching user_data info)
  have a: "accounted_for n c (s\<lparr>trace := trace s @ [Call_CreateDirectory d]\<rparr>)" for d
    using assms(1) by (rule accounted_for_trace) simp
  show ?thesis
    using Do_DidFinishLaunching assms(1) a
    by (cases user_data; cases "ready_promise s")
       (simp_all add: DidFinishLaunching_def Let_def notify_all_eq accounted_for_def
          closure_runs_append closure_runs_Notified)
next
  case (Do_WhenReady i)
  then show ?thesis
    using assms(1)
    by (cases "ready_promise s") (simp_all add: WhenReady_def Let_def accounted_for_fields)
next
  case (Do_SetMainMessageLoopQuitClosure d)
  from assms(2) [OF this] have sd: "is_shutdown s" and ne: "d \<noteq> c" by simp_all
  show ?thesis
    using Do_SetMainMessageLoopQuitClosure assms(1) sd ne
    by (simp add: SetMainMessageLoopQuitClosure_def accounted_for_def closure_runs_append)
next
  case Do_OnWindowCloseCancelled
  then show ?thesis
    using assms(1) by (simp add: OnWindowCloseCancelled_def accounted_for_fields)
next
  case Do_OnWindowAllClosed
  then show ?thesis using assms(1) by (simp add: accounted_for_OnWindowAllClosed)
next
  case (Env_Observers obs)
  then show ?thesis using assms(1) by (simp add: accounted_for_fields)
qed (use assms(1) in \<open>simp_all add: OpenURL_def Activate_def WillFinishLaunching_def
       OnAccessibilitySupportChanged_def RequestLogin_def PreMainMessageLoopRun_def
       accounted_for_notify_all\<close>)

lemma accounted_for_run:
  assumes "accounted_for n c s" and "c \<notin> set (supplied calls)"
      and "\<not> supplied_while_pending calls s"
  shows "accounted_for n c (last_state (run calls s))"
  using assms
proof (induction calls arbitrary: s)
  case Nil
  then show ?case by simp
next
  case (Cons call calls)
  have ok: "is_shutdown s \<and> d \<noteq> c" if "call = Do_SetMainMessageLoopQuitClosure d" for d
    using Cons.prems(2,3) that by simp
  have here: "accounted_for n c (last_state (step call s))"
    using Cons.prems(1) ok by (rule accounted_for_step)
  have sup: "c \<notin> set (supplied calls)"
    using Cons.prems(2) by (cases call) simp_all
  show ?case
  proof (cases "step call s")
    case (ProcessExit code s')
    then show ?thesis using here by simp
  next
    case (Running s')
    then have "\<not> supplied_while_pending calls s'"
      using Cons.prems(3) by simp
    from Cons.IH [OF _ sup this] here Running show ?thesis by simp
  qed
qed

lemma accounted_for_start:
  assumes "quit_main_message_loop s \<noteq> Some c"
  shows "accounted_for (length (trace s)) c (SetMainMessageLoopQuitClosure c s)"
  using assms by (simp add: SetMainMessageLoopQuitClosure_def accounted_for_def)

lemma closure_runs_Shutdown_stored:
  assumes "\<not> is_shutdown s"
  shows "closure_runs (new_events s (Shutdown (SetMainMessageLoopQuitClosure c s))) = [c]"
  using assms
  by (simp add: SetMainMessageLoopQuitClosure_def Shutdown_eq new_events_def closure_runs_append
        closure_runs_Notified)

text \<open>
  C6 (as amended). \<open>SetMainMessageLoopQuitClosure(c)\<close> runs \<open>c\<close> at once, without storing
  it, when \<open>is_shutdown_\<close> is true; otherwise it stores \<open>c\<close>, the next \<open>Shutdown()\<close> runs
  it, and a further \<open>Shutdown()\<close> changes nothing. In every execution that follows the
  call, as long as no other closure is supplied while \<open>is_shutdown_\<close> is still false,
  \<open>c\<close> is accounted for in the last state: it has run exactly once and the browser is shut
  down, or it has not run and is the stored closure. So it runs at most once, and it has
  run or is still stored. A closure is consumed by the call that supplies it: \<open>c\<close> is
  taken to be a new one, not the closure already stored and not supplied again later.
\<close>

theorem quit_closure_kept:
  "(is_shutdown s \<longrightarrow>
      SetMainMessageLoopQuitClosure c s = s\<lparr>trace := trace s @ [Run_quit_closure c]\<rparr>) \<and>
   (\<not> is_shutdown s \<longrightarrow>
      SetMainMessageLoopQuitClosure c s = s\<lparr>quit_main_message_loop := Some c\<rparr> \<and>
      closure_runs (new_events s (Shutdown (SetMainMessageLoopQuitClosure c s))) = [c] \<and>
      Shutdown (Shutdown (SetMainMessageLoopQuitClosure c s)) =
        Shutdown (SetMainMessageLoopQuitClosure c s)) \<and>
   (quit_main_message_loop s \<noteq> Some c \<and> c \<notin> set (supplied calls) \<and>
    \<not> supplied_while_pending calls (SetMainMessageLoopQuitClosure c s) \<longrightarrow>
      accounted_for (length (trace s)) c (last_state (run calls (SetMainMessageLoopQuitClosure c s))) \<and>
      count_list
        (closure_runs (new_events s (last_state (run calls (SetMainMessageLoopQuitClosure c s))))) c \<le> 1 \<and>
      (count_list
         (closure_runs (new_events s (last_state (run calls (SetMainMessageLoopQuitClosure c s))))) c = 1 \<or>
       quit_main_message_loop (last_state (run calls (SetMainMessageLoopQuitClosure c s))) = Some c))"
proof -
  let ?s1 = "SetMainMessageLoopQuitClosure c s"
  let ?end = "last_state (run calls ?s1)"
  have a: "?s1 = s\<lparr>trace := trace s @ [Run_quit_closure c]\<rparr>" if "is_shutdown s"
    using that by (simp add: SetMainMessageLoopQuitClosure_def)
  have b: "?s1 = s\<lparr>quit_main_message_loop := Some c\<rparr>" if "\<not> is_shutdown s"
    using that by (simp add: SetMainMessageLoopQuitClosure_def)
  have c: "closure_runs (new_events s (Shutdown ?s1)) = [c]" if "\<not> is_shutdown s"
    using that by (rule closure_runs_Shutdown_stored)
  have d: "Shutdown (Shutdown ?s1) = Shutdown ?s1"
    by (rule Shutdown_twice)
  have e: "accounted_for (length (trace s)) c ?end \<and>
      count_list (closure_runs (new_events s ?end)) c \<le> 1 \<and>
      (count_list (closure_runs (new_events s ?end)) c = 1 \<or> quit_main_message_loop ?end = Some c)"
    if fresh: "quit_main_message_loop s \<noteq> Some c" and once: "c \<notin> set (supplied calls)"
      and alone: "\<not> supplied_while_pending calls ?s1"
  proof -
    have "accounted_for (length (trace s)) c ?end"
      using accounted_for_start [OF fresh] once alone by (rule accounted_for_run)
    then show ?thesis
      by (cases "is_shutdown ?end") (simp_all add: accounted_for_def new_events_def)
  qed
  show ?thesis using a b c d e by blast
qed

text \<open>
  The witness: closure 7 is stored, \<open>Shutdown()\<close> runs it, and closure 8, supplied after
  the shutdown, runs at once; closure 7 has run exactly once.
\<close>

theorem quit_closure_kept_witness:
  "quit_main_message_loop two_quiet \<noteq> Some 7 \<and>
   7 \<notin> set (supplied [Do_Shutdown, Do_SetMainMessageLoopQuitClosure 8]) \<and>
   \<not> supplied_while_pending [Do_Shutdown, Do_SetMainMessageLoopQuitClosure 8]
       (SetMainMessageLoopQuitClosure 7 two_quiet) \<and>
   \<not> is_shutdown two_quiet \<and>
   SetMainMessageLoopQuitClosure 7 two_quiet = two_quiet\<lparr>quit_main_message_loop := Some 7\<rparr> \<and>
   count_list
     (closure_runs (new_events two_quiet
        (last_state (run [Do_Shutdown, Do_SetMainMessageLoopQuitClosure 8]
           (SetMainMessageLoopQuitClosure 7 two_quiet))))) 7 = 1 \<and>
   quit_main_message_loop
     (last_state (run [Do_Shutdown, Do_SetMainMessageLoopQuitClosure 8]
        (SetMainMessageLoopQuitClosure 7 two_quiet))) = None"
proof -
  let ?calls = "[Do_Shutdown, Do_SetMainMessageLoopQuitClosure 8]"
  have a: "quit_main_message_loop two_quiet \<noteq> Some 7" and n: "\<not> is_shutdown two_quiet"
    by (simp_all add: two_quiet_def idle_browser_def)
  have b: "7 \<notin> set (supplied ?calls)"
    by simp
  have c: "\<not> supplied_while_pending ?calls (SetMainMessageLoopQuitClosure 7 two_quiet)"
    by (simp add: is_shutdown_Shutdown)
  have d: "quit_main_message_loop
     (last_state (run ?calls (SetMainMessageLoopQuitClosure 7 two_quiet))) = None"
    by (simp add: SetMainMessageLoopQuitClosure_def Shutdown_eq two_quiet_def idle_browser_def)
  show ?thesis
    using quit_closure_kept [of two_quiet 7 ?calls] a n b c d by auto
qed

text \<open>
  As the claim is written, for every execution, it fails: the browser has one slot for the
  closure, and a second \<open>SetMainMessageLoopQuitClosure\<close> before the shutdown overwrites
  the first closure. After the shutdown closure 1 has not run and is not stored.
\<close>

theorem quit_closure_dropped_counterexample:
  "closure_runs
     (trace (last_state
        (run [Do_SetMainMessageLoopQuitClosure 1, Do_SetMainMessageLoopQuitClosure 2, Do_Shutdown]
           two_quiet))) = [2] \<and>
   quit_main_message_loop
     (last_state
        (run [Do_SetMainMessageLoopQuitClosure 1, Do_SetMainMessageLoopQuitClosure 2, Do_Shutdown]
           two_quiet)) = None"
  by (simp add: SetMainMessageLoopQuitClosure_def Shutdown_eq two_quiet_def idle_browser_def
        quiet_observer_def)

end
